theory Spec2Isabelle
  imports Main "HOL-Library.AList"
begin

section \<open>Data model of \<^verbatim>\<open>board.py\<close>\<close>

text \<open>
  The board of \<^verbatim>\<open>src/board.py\<close> holds references to mutable piece objects: the same
  object is reachable from the numpy grid, from the dictionary \<^verbatim>\<open>_pieces\<close>, from
  \<^verbatim>\<open>kings\<close> and from \<^verbatim>\<open>en_passant\<close>. The model therefore keeps an explicit object
  store: a reference is a natural number, the store maps references to piece records, and
  every container of the board holds references.
\<close>

datatype Team = White | Black

datatype Kind = Pawn | Knight | Bishop | Rook | Queen | King

datatype error = ValueError | KeyError | IndexError | AttributeError

type_synonym pos = "int \<times> int"

type_synonym cpos = "char \<times> int"

type_synonym ref = nat

text \<open>
  The attributes of a piece object that \<^verbatim>\<open>board.py\<close> reads or writes: \<^verbatim>\<open>team\<close>,
  \<^verbatim>\<open>position\<close>, the class (\<^verbatim>\<open>isinstance\<close> tests), the liveness flag changed by
  \<^verbatim>\<open>piece.destroy()\<close>, and \<^verbatim>\<open>move_set\<close>, which \<^verbatim>\<open>Board.move\<close> indexes by a position and
  iterates (a dictionary from positions to an iterable of positions).
\<close>

record piece =
  kind :: Kind
  team :: Team
  position :: pos
  alive :: bool
  move_set :: "pos \<rightharpoonup> pos list"

text \<open>
  The attributes of \<^verbatim>\<open>Board\<close>: \<^verbatim>\<open>board\<close> is the 8x8 numpy array (0 for an empty square),
  \<^verbatim>\<open>pieces\<close> is the dictionary \<^verbatim>\<open>_pieces\<close> in insertion order, \<^verbatim>\<open>kings\<close> and
  \<^verbatim>\<open>en_passant\<close> as in \<^verbatim>\<open>__init__\<close>. \<^verbatim>\<open>heap\<close> and \<^verbatim>\<open>next_ref\<close> are the object store.
\<close>

record Board =
  board :: "pos \<rightharpoonup> ref"
  pieces :: "(pos \<times> ref) list"
  kings :: "Team \<Rightarrow> ref option"
  en_passant :: "pos option \<times> ref option"
  heap :: "ref \<Rightarrow> piece"
  next_ref :: ref

type_synonym outcome = "error option \<times> Board"

text \<open>Sequencing of two mutating calls: an exception of the first one ends the operation
  in the state reached so far.\<close>

definition then_do :: "outcome \<Rightarrow> (Board \<Rightarrow> outcome) \<Rightarrow> outcome" where
  "then_do x f = (case x of (None, b) \<Rightarrow> f b | (Some e, b) \<Rightarrow> (Some e, b))"

text \<open>Modelled from the spec: the complement \<^verbatim>\<open>~team\<close> of \<^verbatim>\<open>pieces.Team\<close> is missing;
  not-White is Black and vice versa.\<close>

fun team_not :: "Team \<Rightarrow> Team" where
  "team_not White = Black"
| "team_not Black = White"

subsection \<open>Parts of the repository that are not in \<^verbatim>\<open>src/\<close>\<close>

text \<open>Modelled from the spec: the constructors of \<^verbatim>\<open>pieces.py\<close> are missing. The spec
  gives a piece the attributes team, position, kind and alive; a new piece is alive. No
  move set has been computed for a new piece.\<close>

definition new_piece :: "Kind \<Rightarrow> Team \<Rightarrow> pos \<Rightarrow> piece" where
  "new_piece k t p = \<lparr>kind = k, team = t, position = p, alive = True, move_set = Map.empty\<rparr>"

text \<open>Modelled from the spec: \<^verbatim>\<open>misc.chess_to_coord\<close> is missing. The spec maps file
  \<^verbatim>\<open>a\<close> to column 0 and rank 1 to row index 7 (rank 8 to row 0).\<close>

definition chess_to_coord :: "cpos \<Rightarrow> pos" where
  "chess_to_coord cp = (of_char (fst cp) - 97, 8 - snd cp)"

text \<open>Modelled from the spec: \<^verbatim>\<open>misc.to_coord\<close> is missing. The spec has every entry point
  normalise a coordinate to the raw pair; \<^verbatim>\<open>Board.move\<close> is documented to take chess
  coordinates, on which this is \<^verbatim>\<open>chess_to_coord\<close>.\<close>

definition to_coord :: "cpos \<Rightarrow> pos" where
  "to_coord cp = chess_to_coord cp"

text \<open>Modelled from the spec: \<^verbatim>\<open>misc.to_both_coord\<close> is missing. It returns the chess
  coordinate together with the raw pair.\<close>

definition to_both_coord :: "cpos \<Rightarrow> cpos \<times> pos" where
  "to_both_coord cp = (cp, chess_to_coord cp)"

text \<open>Modelled from the spec: \<^verbatim>\<open>Piece.destroy\<close> of \<^verbatim>\<open>pieces.py\<close> is missing. A destroyed
  piece is no longer live.\<close>

definition piece_destroy :: "piece \<Rightarrow> piece" where
  "piece_destroy p = p\<lparr>alive := False\<rparr>"

text \<open>Modelled from the spec: \<^verbatim>\<open>Piece.set_position\<close> of \<^verbatim>\<open>pieces.py\<close> is missing. It
  updates the \<^verbatim>\<open>position\<close> attribute of the piece.\<close>

definition set_position :: "piece \<Rightarrow> pos \<Rightarrow> piece" where
  "set_position p q = p\<lparr>position := q\<rparr>"

text \<open>The squares of the board, and the chess coordinates that name one.\<close>

definition on_board :: "pos \<Rightarrow> bool" where
  "on_board p = (0 \<le> fst p \<and> fst p < 8 \<and> 0 \<le> snd p \<and> snd p < 8)"

definition valid_cpos :: "cpos \<Rightarrow> bool" where
  "valid_cpos cp = (fst cp \<in> set ''abcdefgh'' \<and> 1 \<le> snd cp \<and> snd cp \<le> 8)"

subsection \<open>The numpy grid\<close>

text \<open>Indexing an axis of length 8: an index from -8 to -1 counts from the end, anything
  outside -8..7 raises \<^verbatim>\<open>IndexError\<close>.\<close>

definition np_index :: "int \<Rightarrow> int option" where
  "np_index i = (if 0 \<le> i \<and> i < 8 then Some i
                 else if - 8 \<le> i \<and> i < 0 then Some (i + 8) else None)"

definition board_index :: "pos \<Rightarrow> pos option" where
  "board_index p = (case np_index (fst p) of None \<Rightarrow> None
     | Some i \<Rightarrow> (case np_index (snd p) of None \<Rightarrow> None | Some j \<Rightarrow> Some (i, j)))"

section \<open>Placement, removal and moves\<close>

text \<open>\<^verbatim>\<open>Board.__init__\<close> without an initial array. No object has been allocated; the store
  is filled with a placeholder.\<close>

definition empty_board :: Board where
  "empty_board = \<lparr>board = Map.empty, pieces = [], kings = (\<lambda>_. None),
     en_passant = (None, None), heap = (\<lambda>_. new_piece Pawn White (0, 0)), next_ref = 0\<rparr>"

text \<open>Creating an object: the next free reference holds the new piece.\<close>

definition alloc :: "Board \<Rightarrow> piece \<Rightarrow> ref \<times> Board" where
  "alloc b p = (next_ref b, b\<lparr>heap := (heap b)(next_ref b := p), next_ref := Suc (next_ref b)\<rparr>)"

text \<open>\<^verbatim>\<open>Board.__getitem__\<close>.\<close>

definition getitem :: "Board \<Rightarrow> cpos \<Rightarrow> error + ref option" where
  "getitem b cp = (case board_index (chess_to_coord cp) of
       None \<Rightarrow> Inl IndexError
     | Some ix \<Rightarrow> Inr (board b ix))"

text \<open>\<^verbatim>\<open>Board.__setitem__\<close>: the test reads the grid and the dictionary, and raises before
  anything is written.\<close>

definition setitem :: "Board \<Rightarrow> cpos \<Rightarrow> ref \<Rightarrow> outcome" where
  "setitem b cp val =
     (let cr = chess_to_coord cp in
      case board_index cr of
        None \<Rightarrow> (Some IndexError, b)
      | Some ix \<Rightarrow>
          if board b ix \<noteq> None \<or> map_of (pieces b) cr \<noteq> None then (Some ValueError, b)
          else (None, b\<lparr>board := (board b)(ix \<mapsto> val),
                         pieces := AList.update cr val (pieces b)\<rparr>))"

text \<open>\<^verbatim>\<open>Board.remove\<close>: \<^verbatim>\<open>dict.pop\<close> first (\<^verbatim>\<open>KeyError\<close> on a missing key), then the
  grid.\<close>

definition remove :: "Board \<Rightarrow> pos \<Rightarrow> outcome" where
  "remove b p =
     (case map_of (pieces b) p of
        None \<Rightarrow> (Some KeyError, b)
      | Some _ \<Rightarrow>
          (let b1 = b\<lparr>pieces := AList.delete p (pieces b)\<rparr> in
           case board_index p of
             None \<Rightarrow> (Some IndexError, b1)
           | Some ix \<Rightarrow> (None, b1\<lparr>board := (board b1)(ix := None)\<rparr>)))"

text \<open>\<^verbatim>\<open>Board.destroy\<close>. The argument can be \<^verbatim>\<open>None\<close> (the second component of
  \<^verbatim>\<open>en_passant\<close>), on which reading \<^verbatim>\<open>piece.position\<close> raises.\<close>

definition destroy :: "Board \<Rightarrow> ref option \<Rightarrow> outcome" where
  "destroy b piece =
     (case piece of
        None \<Rightarrow> (Some AttributeError, b)
      | Some r \<Rightarrow>
          then_do (remove b (position (heap b r)))
            (\<lambda>b1. (None, b1\<lparr>heap := (heap b1)(r := piece_destroy (heap b1 r))\<rparr>)))"

text \<open>The first part of \<^verbatim>\<open>Board.move\<close> (lines 85 to 96): the en-passant capture and the
  new en-passant state for a pawn; for any other piece the cleared en-passant state and
  the capture of the occupant of the destination.\<close>

definition move_capture :: "Board \<Rightarrow> ref \<Rightarrow> pos \<Rightarrow> outcome" where
  "move_capture b piece npos =
     (if kind (heap b piece) = Pawn then
        then_do (if Some npos = fst (en_passant b) then destroy b (snd (en_passant b))
                 else (None, b))
          (\<lambda>b1. case move_set (heap b1 piece) (position (heap b1 piece)) of
                   None \<Rightarrow> (Some KeyError, b1)
                 | Some ms \<Rightarrow>
                     (None, b1\<lparr>en_passant :=
                         (case ms of [] \<Rightarrow> None | x # _ \<Rightarrow> Some x, Some piece)\<rparr>))
      else
        (let b1 = b\<lparr>en_passant := (None, None)\<rparr> in
         case map_of (pieces b1) npos of
           None \<Rightarrow> (None, b1)
         | Some occ \<Rightarrow> destroy b1 (Some occ)))"

text \<open>\<^verbatim>\<open>Board.move\<close>.\<close>

definition move :: "Board \<Rightarrow> ref \<Rightarrow> cpos \<Rightarrow> outcome" where
  "move b piece new_position =
     (let npos = to_coord new_position in
      then_do (move_capture b piece npos)
        (\<lambda>b2. then_do (remove b2 (position (heap b2 piece)))
           (\<lambda>b3. setitem (b3\<lparr>heap := (heap b3)(piece := set_position (heap b3 piece) npos)\<rparr>)
                    new_position piece)))"

text \<open>\<^verbatim>\<open>Board.put_piece\<close>: the constructor is an argument; the object is created before
  \<^verbatim>\<open>__setitem__\<close> runs.\<close>

definition put_piece :: "Board \<Rightarrow> cpos \<Rightarrow> (Team \<Rightarrow> pos \<Rightarrow> piece) \<Rightarrow> Team \<Rightarrow> outcome" where
  "put_piece b cp ctor t =
     (case to_both_coord cp of (c, p) \<Rightarrow>
        (case alloc b (ctor t p) of (r, b1) \<Rightarrow> setitem b1 c r))"

text \<open>\<^verbatim>\<open>Board.place_king\<close>: a chained assignment evaluates the right-hand side and then
  assigns the targets from left to right, the board square before \<^verbatim>\<open>kings\<close>.\<close>

definition place_king :: "Board \<Rightarrow> cpos \<Rightarrow> Team \<Rightarrow> outcome" where
  "place_king b cp t =
     (case to_both_coord cp of (c, p) \<Rightarrow>
        (case alloc b (new_piece King t p) of (r, b1) \<Rightarrow>
           then_do (setitem b1 c r) (\<lambda>b2. (None, b2\<lparr>kings := (kings b2)(t := Some r)\<rparr>))))"

text \<open>A square holds a piece for \<^verbatim>\<open>__setitem__\<close> when the grid or the dictionary has
  one there.\<close>

definition occupied :: "Board \<Rightarrow> pos \<Rightarrow> bool" where
  "occupied b p = (board b p \<noteq> None \<or> map_of (pieces b) p \<noteq> None)"

section \<open>Danger zones, attackers and legal moves\<close>

text \<open>
  The methods of the piece classes that \<^verbatim>\<open>board.py\<close> calls (\<^verbatim>\<open>danger_zone\<close>,
  \<^verbatim>\<open>get_moves\<close>, \<^verbatim>\<open>King.check_pins\<close>) are defined in \<^verbatim>\<open>pieces.py\<close>, which is not in
  \<^verbatim>\<open>src/\<close>. The functions of the board take them as a parameter: each receives the
  object store and the dictionary \<^verbatim>\<open>_pieces\<close> it is called with, and the piece it is
  called on; \<^verbatim>\<open>get_moves\<close> also receives the \<^verbatim>\<open>en_passant\<close> keyword argument. The spec
  describes them as pure functions of the board state.
\<close>

record pieces_py =
  danger_zone :: "(ref \<Rightarrow> piece) \<Rightarrow> (pos \<times> ref) list \<Rightarrow> piece \<Rightarrow> pos set"
  get_moves :: "(ref \<Rightarrow> piece) \<Rightarrow> (pos \<times> ref) list \<Rightarrow> piece \<Rightarrow> pos option \<Rightarrow> pos set"
  check_pins :: "(ref \<Rightarrow> piece) \<Rightarrow> (pos \<times> ref) list \<Rightarrow> piece \<Rightarrow> (ref \<times> pos set) list"

text \<open>\<^verbatim>\<open>Board.get_danger_zone\<close>.\<close>

definition get_danger_zone :: "pieces_py \<Rightarrow> Board \<Rightarrow> Team \<Rightarrow> pos set" where
  "get_danger_zone pm b t =
     fold (\<lambda>(pos, r) danger.
             if team (heap b r) = t
             then danger \<union> danger_zone pm (heap b) (pieces b) (heap b r)
             else danger)
          (pieces b) {}"

text \<open>\<^verbatim>\<open>Board.is_check\<close>.\<close>

definition is_check :: "pieces_py \<Rightarrow> Board \<Rightarrow> Team \<Rightarrow> pos set option \<Rightarrow> error + bool" where
  "is_check pm b t dz =
     (let zone = (case dz of None \<Rightarrow> get_danger_zone pm b (team_not t) | Some z \<Rightarrow> z) in
      case kings b t of
        None \<Rightarrow> Inl AttributeError
      | Some k \<Rightarrow> Inr (position (heap b k) \<in> zone))"

text \<open>The loop of \<^verbatim>\<open>Board.get_attackers\<close> (lines 212 to 232) over the remaining entries
  of \<^verbatim>\<open>_pieces\<close>, with the list of attackers found so far.\<close>

fun attackers_loop ::
  "pieces_py \<Rightarrow> Board \<Rightarrow> Team \<Rightarrow> pos set \<Rightarrow> pos set \<Rightarrow> pos set \<Rightarrow> pos set \<Rightarrow>
   (pos \<times> ref) list \<Rightarrow> (ref \<times> pos set) list \<Rightarrow> (ref \<times> pos set) list" where
  "attackers_loop pm b t rdng bdng kdng pdng [] attackers = attackers"
| "attackers_loop pm b t rdng bdng kdng pdng ((pos, r) # rest) attackers =
     (if team (heap b r) = t \<or> kind (heap b r) = King
      then attackers_loop pm b t rdng bdng kdng pdng rest attackers
      else
        (let attackers' =
           (if (kind (heap b r) = Bishop \<or> kind (heap b r) = Queen) \<and> pos \<in> bdng
            then attackers @ [(r, bdng \<inter> get_moves pm (heap b) (pieces b)
                                      (new_piece Bishop (team_not t) pos) None)]
            else if (kind (heap b r) = Rook \<or> kind (heap b r) = Queen) \<and> pos \<in> rdng
            then attackers @ [(r, rdng \<inter> get_moves pm (heap b) (pieces b)
                                      (new_piece Rook (team_not t) pos) None)]
            else if kind (heap b r) = Knight \<and> pos \<in> kdng then attackers @ [(r, {pos})]
            else if kind (heap b r) = Pawn \<and> pos \<in> pdng then attackers @ [(r, {pos})]
            else attackers)
         in if length attackers' \<ge> 2 then attackers'
            else attackers_loop pm b t rdng bdng kdng pdng rest attackers'))"

text \<open>\<^verbatim>\<open>Board.get_attackers\<close>.\<close>

definition get_attackers :: "pieces_py \<Rightarrow> Board \<Rightarrow> Team \<Rightarrow> error + (ref \<times> pos set) list" where
  "get_attackers pm b t =
     (case kings b t of
        None \<Rightarrow> Inl AttributeError
      | Some k \<Rightarrow>
          (let kingpos = position (heap b k);
               rdng = danger_zone pm (heap b) (pieces b) (new_piece Rook t kingpos);
               bdng = danger_zone pm (heap b) (pieces b) (new_piece Bishop t kingpos);
               kdng = danger_zone pm (heap b) (pieces b) (new_piece Knight t kingpos);
               pdng = danger_zone pm (heap b) (pieces b) (new_piece Pawn t kingpos)
           in Inr (attackers_loop pm b t rdng bdng kdng pdng (pieces b) [])))"

text \<open>What the loop of \<^verbatim>\<open>get_attackers\<close> guarantees for an entry of its result.\<close>

definition attacker_ok :: "Board \<Rightarrow> (pos \<times> ref) list \<Rightarrow> ref \<times> pos set \<Rightarrow> bool" where
  "attacker_ok b d a =
     (kind (heap b (fst a)) \<noteq> King \<and>
      (kind (heap b (fst a)) = Knight \<or> kind (heap b (fst a)) = Pawn \<longrightarrow>
         (\<exists>pos. (pos, fst a) \<in> set d \<and> snd a = {pos})))"

text \<open>The first loop of \<^verbatim>\<open>Board.legal_moves\<close> (lines 244 to 251): the moves of the team
  and the danger zone of the other pieces.\<close>

definition collect_moves :: "pieces_py \<Rightarrow> Board \<Rightarrow> Team \<Rightarrow> (pos \<times> pos set) list \<times> pos set" where
  "collect_moves pm b t =
     fold (\<lambda>(pos, r) (pmoves, dzone).
             if team (heap b r) \<noteq> t
             then (pmoves, dzone \<union> danger_zone pm (heap b) (pieces b) (heap b r))
             else (AList.update pos
                     (get_moves pm (heap b) (pieces b) (heap b r) (fst (en_passant b))) pmoves,
                   dzone))
          (pieces b) ([], {})"

text \<open>The pin loop (lines 254 to 256).\<close>

fun apply_pins ::
  "(ref \<Rightarrow> piece) \<Rightarrow> (ref \<times> pos set) list \<Rightarrow> (pos \<times> pos set) list \<Rightarrow>
   error + (pos \<times> pos set) list" where
  "apply_pins h [] pmoves = Inr pmoves"
| "apply_pins h ((r, rs) # pins) pmoves =
     (case map_of pmoves (position (h r)) of
        None \<Rightarrow> Inl KeyError
      | Some s \<Rightarrow> apply_pins h pins (AList.update (position (h r)) (s \<inter> rs) pmoves))"

text \<open>The squares that answer a check (lines 262 to 272).\<close>

definition block_moves :: "Board \<Rightarrow> (ref \<times> pos set) list \<Rightarrow> pos set" where
  "block_moves b attackers =
     (case attackers of
        [a] \<Rightarrow> snd a \<union> {position (heap b (fst a))}
      | _ \<Rightarrow> {})"

text \<open>The loop over \<^verbatim>\<open>pmoves\<close> under check (lines 273 to 278). It rewrites the value of
  each key in place, so it is a pass over the items of the dictionary.\<close>

fun check_loop ::
  "Board \<Rightarrow> pos \<Rightarrow> pos set \<Rightarrow> (pos \<times> pos set) list \<Rightarrow> error + (pos \<times> pos set) list" where
  "check_loop b kingpos blk [] = Inr []"
| "check_loop b kingpos blk ((pos, s) # rest) =
     (case (if pos \<noteq> kingpos then
              (case fst (en_passant b) of
                 None \<Rightarrow> Inr (s \<inter> blk)
               | Some ep \<Rightarrow>
                   (case map_of (pieces b) pos of
                      None \<Rightarrow> Inl KeyError
                    | Some r \<Rightarrow> Inr (if kind (heap b r) = Pawn then insert ep (s \<inter> blk)
                                      else s \<inter> blk)))
            else Inr s) of
        Inl e \<Rightarrow> Inl e
      | Inr s' \<Rightarrow>
          (case check_loop b kingpos blk rest of
             Inl e \<Rightarrow> Inl e
           | Inr rest' \<Rightarrow> Inr ((pos, s') # rest')))"

text \<open>\<^verbatim>\<open>Board.legal_moves\<close>. The result is the dictionary \<^verbatim>\<open>pmoves\<close> in insertion order.\<close>

definition legal_moves :: "pieces_py \<Rightarrow> Board \<Rightarrow> Team \<Rightarrow> error + (pos \<times> pos set) list" where
  "legal_moves pm b t =
     (case collect_moves pm b t of (pmoves, dzone) \<Rightarrow>
      case kings b t of
        None \<Rightarrow> Inl AttributeError
      | Some k \<Rightarrow>
          (case apply_pins (heap b) (check_pins pm (heap b) (pieces b) (heap b k)) pmoves of
             Inl e \<Rightarrow> Inl e
           | Inr pmoves1 \<Rightarrow>
               (case get_attackers pm b t of
                  Inl e \<Rightarrow> Inl e
                | Inr attackers \<Rightarrow>
                    (case (if length attackers > 0
                           then check_loop b (position (heap b k))
                                  (block_moves b attackers) pmoves1
                           else Inr pmoves1) of
                       Inl e \<Rightarrow> Inl e
                     | Inr pmoves2 \<Rightarrow>
                         (case map_of pmoves2 (position (heap b k)) of
                            None \<Rightarrow> Inl KeyError
                          | Some s \<Rightarrow>
                              Inr (AList.update (position (heap b k)) (s - dzone) pmoves2))))))"

section \<open>Agreement of the grid and the dictionary\<close>

text \<open>The 64 squares of the grid.\<close>

definition squares :: "pos list" where
  "squares = concat (map (\<lambda>c. map (\<lambda>r. (c, r)) [0..7]) [0..7])"

text \<open>The two representations agree: every key of the dictionary is a square of the grid,
  and each square of the grid holds exactly what the dictionary has for it (a piece, the
  same one, or nothing).\<close>

definition agree :: "Board \<Rightarrow> bool" where
  "agree b = (list_all on_board (map fst (pieces b)) \<and>
              list_all (\<lambda>p. board b p = map_of (pieces b) p) squares)"

section \<open>The geometry of the pieces, from the spec\<close>

text \<open>
  The theorems about \<^verbatim>\<open>get_attackers\<close> and \<^verbatim>\<open>legal_moves\<close> hold for every value of the
  parameter \<^typ>\<open>pieces_py\<close>. To run the board on concrete positions, this section gives one
  value of it, written from section 4.1 and 4.5 of the spec.
\<close>

text \<open>Modelled from the spec: the occupancy that the methods of \<^verbatim>\<open>pieces.py\<close> read, the
  piece that \<^verbatim>\<open>_pieces\<close> holds for a square.\<close>

definition piece_at :: "(ref \<Rightarrow> piece) \<Rightarrow> (pos \<times> ref) list \<Rightarrow> pos \<Rightarrow> piece option" where
  "piece_at h d p = map_option h (map_of d p)"

text \<open>Modelled from the spec: the square reached from a square by an offset.\<close>

definition shift :: "pos \<Rightarrow> int \<times> int \<Rightarrow> pos" where
  "shift p d = (fst p + fst d, snd p + snd d)"

text \<open>Modelled from the spec: the four diagonal directions of Bishop and Queen.\<close>

definition diagonals :: "(int \<times> int) list" where
  "diagonals = [(1, 1), (1, - 1), (- 1, 1), (- 1, - 1)]"

text \<open>Modelled from the spec: the four orthogonal directions of Rook and Queen.\<close>

definition orthogonals :: "(int \<times> int) list" where
  "orthogonals = [(1, 0), (- 1, 0), (0, 1), (0, - 1)]"

text \<open>Modelled from the spec: the eight L-shaped offsets of the Knight.\<close>

definition knight_jumps :: "(int \<times> int) list" where
  "knight_jumps = [(1, 2), (2, 1), (2, - 1), (1, - 2), (- 1, - 2), (- 2, - 1), (- 2, 1), (- 1, 2)]"

text \<open>Modelled from the spec: the rays of \<^verbatim>\<open>pieces.py\<close> are missing. A ray stops at the
  first occupied square, inclusive if it holds an enemy piece, exclusive if it holds an
  own piece; in the danger-zone variant \<open>dz\<close> an enemy King does not block the ray and an
  own piece on the ray is covered.\<close>

fun ray ::
  "(ref \<Rightarrow> piece) \<Rightarrow> (pos \<times> ref) list \<Rightarrow> Team \<Rightarrow> bool \<Rightarrow> nat \<Rightarrow> pos \<Rightarrow> int \<times> int \<Rightarrow> pos list" where
  "ray h d t dz 0 p dir = []"
| "ray h d t dz (Suc n) p dir =
     (let q = shift p dir in
      if \<not> on_board q then []
      else (case piece_at h d q of
              None \<Rightarrow> q # ray h d t dz n q dir
            | Some x \<Rightarrow>
                if team x = t then (if dz then [q] else [])
                else if dz \<and> kind x = King then q # ray h d t dz n q dir
                else [q]))"

text \<open>Modelled from the spec: the squares of a sliding piece, the union of its rays. A ray
  has at most seven squares.\<close>

definition slide ::
  "(ref \<Rightarrow> piece) \<Rightarrow> (pos \<times> ref) list \<Rightarrow> Team \<Rightarrow> bool \<Rightarrow> pos \<Rightarrow> (int \<times> int) list \<Rightarrow> pos set" where
  "slide h d t dz p dirs = set (concat (map (ray h d t dz 7 p) dirs))"

text \<open>Modelled from the spec: the fixed offsets of Knight and King, filtered to the board
  and, for moves, to squares not occupied by the own team.\<close>

definition jump ::
  "(ref \<Rightarrow> piece) \<Rightarrow> (pos \<times> ref) list \<Rightarrow> Team \<Rightarrow> bool \<Rightarrow> pos \<Rightarrow> (int \<times> int) list \<Rightarrow> pos set" where
  "jump h d t dz p dirs =
     set (filter (\<lambda>q. on_board q \<and>
                      (dz \<or> (case piece_at h d q of None \<Rightarrow> True | Some x \<Rightarrow> team x \<noteq> t)))
                 (map (shift p) dirs))"

text \<open>Modelled from the spec: White advances toward increasing rank, Black toward
  decreasing rank; rank 1 is row 7, so White moves to smaller rows.\<close>

definition forward :: "Team \<Rightarrow> int" where
  "forward t = (if t = White then - 1 else 1)"

text \<open>Modelled from the spec: the row of the starting rank of a pawn, rank 2 (row 6) for
  White and rank 7 (row 1) for Black.\<close>

definition start_row :: "Team \<Rightarrow> int" where
  "start_row t = (if t = White then 6 else 1)"

text \<open>Modelled from the spec: the danger zone of a Pawn is its two diagonal capture
  squares, whether or not a piece stands there.\<close>

definition pawn_danger :: "Team \<Rightarrow> pos \<Rightarrow> pos set" where
  "pawn_danger t p = set (filter on_board [shift p (1, forward t), shift p (- 1, forward t)])"

text \<open>Modelled from the spec: a Pawn moves one square forward if it is empty, two squares
  from its starting rank if both are empty, and diagonally onto an enemy piece or onto the
  en-passant square.\<close>

definition pawn_moves ::
  "(ref \<Rightarrow> piece) \<Rightarrow> (pos \<times> ref) list \<Rightarrow> Team \<Rightarrow> pos \<Rightarrow> pos option \<Rightarrow> pos set" where
  "pawn_moves h d t p ep =
     (let one = shift p (0, forward t); two = shift one (0, forward t) in
      (if on_board one \<and> piece_at h d one = None then {one} else {}) \<union>
      (if snd p = start_row t \<and> on_board two \<and> piece_at h d one = None \<and> piece_at h d two = None
       then {two} else {}) \<union>
      {q \<in> pawn_danger t p.
         (case piece_at h d q of None \<Rightarrow> False | Some x \<Rightarrow> team x \<noteq> t) \<or> ep = Some q})"

text \<open>Modelled from the spec: \<^verbatim>\<open>danger_zone\<close> of each piece class of \<^verbatim>\<open>pieces.py\<close>.\<close>

definition spec_danger_zone :: "(ref \<Rightarrow> piece) \<Rightarrow> (pos \<times> ref) list \<Rightarrow> piece \<Rightarrow> pos set" where
  "spec_danger_zone h d x =
     (case kind x of
        Pawn \<Rightarrow> pawn_danger (team x) (position x)
      | Knight \<Rightarrow> jump h d (team x) True (position x) knight_jumps
      | Bishop \<Rightarrow> slide h d (team x) True (position x) diagonals
      | Rook \<Rightarrow> slide h d (team x) True (position x) orthogonals
      | Queen \<Rightarrow> slide h d (team x) True (position x) (diagonals @ orthogonals)
      | King \<Rightarrow> jump h d (team x) True (position x) (diagonals @ orthogonals))"

text \<open>Modelled from the spec: \<^verbatim>\<open>get_moves\<close> of each piece class of \<^verbatim>\<open>pieces.py\<close>.\<close>

definition spec_get_moves ::
  "(ref \<Rightarrow> piece) \<Rightarrow> (pos \<times> ref) list \<Rightarrow> piece \<Rightarrow> pos option \<Rightarrow> pos set" where
  "spec_get_moves h d x ep =
     (case kind x of
        Pawn \<Rightarrow> pawn_moves h d (team x) (position x) ep
      | Knight \<Rightarrow> jump h d (team x) False (position x) knight_jumps
      | Bishop \<Rightarrow> slide h d (team x) False (position x) diagonals
      | Rook \<Rightarrow> slide h d (team x) False (position x) orthogonals
      | Queen \<Rightarrow> slide h d (team x) False (position x) (diagonals @ orthogonals)
      | King \<Rightarrow> jump h d (team x) False (position x) (diagonals @ orthogonals))"

text \<open>Modelled from the spec: \<^verbatim>\<open>King.check_pins\<close> is missing. Along each of the eight
  lines from the King, a friendly piece followed, with nothing between, by an enemy
  Bishop, Rook or Queen that slides along that line is pinned to the squares of the line
  up to and including the pinning piece.\<close>

fun pin_scan ::
  "(ref \<Rightarrow> piece) \<Rightarrow> (pos \<times> ref) list \<Rightarrow> Team \<Rightarrow> nat \<Rightarrow> pos \<Rightarrow> int \<times> int \<Rightarrow>
   pos list \<Rightarrow> ref option \<Rightarrow> (ref \<times> pos set) option" where
  "pin_scan h d t 0 p dir line cand = None"
| "pin_scan h d t (Suc n) p dir line cand =
     (let q = shift p dir in
      if \<not> on_board q then None
      else (case map_of d q of
              None \<Rightarrow> pin_scan h d t n q dir (q # line) cand
            | Some r \<Rightarrow>
                if team (h r) = t
                then (case cand of
                        None \<Rightarrow> pin_scan h d t n q dir (q # line) (Some r)
                      | Some _ \<Rightarrow> None)
                else (case cand of
                        None \<Rightarrow> None
                      | Some c \<Rightarrow>
                          if kind (h r) = Queen
                             \<or> (kind (h r) = Bishop \<and> dir \<in> set diagonals)
                             \<or> (kind (h r) = Rook \<and> dir \<in> set orthogonals)
                          then Some (c, set (q # line)) else None)))"

text \<open>Modelled from the spec: \<^verbatim>\<open>King.check_pins\<close>, the pins found along the eight lines
  from the King.\<close>

definition spec_check_pins ::
  "(ref \<Rightarrow> piece) \<Rightarrow> (pos \<times> ref) list \<Rightarrow> piece \<Rightarrow> (ref \<times> pos set) list" where
  "spec_check_pins h d k =
     List.map_filter (\<lambda>dir. pin_scan h d (team k) 7 (position k) dir [] None)
       (diagonals @ orthogonals)"

text \<open>Modelled from the spec: the three methods of \<^verbatim>\<open>pieces.py\<close> together.\<close>

definition spec_pieces :: pieces_py where
  "spec_pieces = \<lparr>danger_zone = spec_danger_zone, get_moves = spec_get_moves,
                  check_pins = spec_check_pins\<rparr>"

text \<open>Modelled from the spec: the constructor of \<^verbatim>\<open>pieces.Pawn\<close> is missing. The spec has
  \<^verbatim>\<open>move\<close> read from the pawn the square it passes over on a double advance, or none. The
  scenario \<^verbatim>\<open>board4\<close> of the source moves a pawn that was just placed on d2 to d4 to enable
  the en-passant capture, so the entry exists for a new pawn: on its starting rank it is
  the square in front of it, elsewhere it is empty.\<close>

definition new_pawn :: "Team \<Rightarrow> pos \<Rightarrow> piece" where
  "new_pawn t p = (new_piece Pawn t p)
     \<lparr>move_set := (\<lambda>q. Some (if snd q = start_row t then [shift q (0, forward t)] else []))\<rparr>"

section \<open>Scenarios\<close>

text \<open>\<^verbatim>\<open>b.move(b[c, r], dst)\<close> as the scenarios of the source write it.\<close>

definition move_from :: "Board \<Rightarrow> cpos \<Rightarrow> cpos \<Rightarrow> outcome" where
  "move_from b src dst =
     (case getitem b src of
        Inl e \<Rightarrow> (Some e, b)
      | Inr None \<Rightarrow> (Some AttributeError, b)
      | Inr (Some r) \<Rightarrow> move b r dst)"

text \<open>\<^verbatim>\<open>Board.board4\<close> of the source: the en-passant example.\<close>

definition board4 :: outcome where
  "board4 =
     then_do (place_king empty_board (CHR ''c'', 5) Black) (\<lambda>b.
     then_do (place_king b (CHR ''a'', 1) White) (\<lambda>b.
     then_do (put_piece b (CHR ''e'', 4) new_pawn Black) (\<lambda>b.
     then_do (put_piece b (CHR ''d'', 2) new_pawn White) (\<lambda>b.
     move_from b (CHR ''d'', 2) (CHR ''d'', 4)))))"

text \<open>A white pawn on e4 next to a black knight on d5, nothing else.\<close>

definition capture_board :: outcome where
  "capture_board =
     then_do (put_piece empty_board (CHR ''e'', 4) new_pawn White) (\<lambda>b.
     put_piece b (CHR ''d'', 5) (new_piece Knight) Black)"

text \<open>A white pawn on d2, nothing else.\<close>

definition pawn_board :: outcome where
  "pawn_board = put_piece empty_board (CHR ''d'', 2) new_pawn White"

text \<open>The white King on e1 in check from a black rook on e8; a white pawn on h2; the
  black pawn of the a-file has just advanced from a7 to a5.\<close>

definition check_board :: outcome where
  "check_board =
     then_do (place_king empty_board (CHR ''e'', 1) White) (\<lambda>b.
     then_do (place_king b (CHR ''a'', 8) Black) (\<lambda>b.
     then_do (put_piece b (CHR ''e'', 8) (new_piece Rook) Black) (\<lambda>b.
     then_do (put_piece b (CHR ''h'', 2) new_pawn White) (\<lambda>b.
     then_do (put_piece b (CHR ''a'', 7) new_pawn Black) (\<lambda>b.
     move_from b (CHR ''a'', 7) (CHR ''a'', 5))))))"

text \<open>The same position with a black knight on f3: the white King is in double check.\<close>

definition double_check_board :: outcome where
  "double_check_board =
     then_do (place_king empty_board (CHR ''e'', 1) White) (\<lambda>b.
     then_do (place_king b (CHR ''a'', 8) Black) (\<lambda>b.
     then_do (put_piece b (CHR ''e'', 8) (new_piece Rook) Black) (\<lambda>b.
     then_do (put_piece b (CHR ''f'', 3) (new_piece Knight) Black) (\<lambda>b.
     then_do (put_piece b (CHR ''h'', 2) new_pawn White) (\<lambda>b.
     then_do (put_piece b (CHR ''a'', 7) new_pawn Black) (\<lambda>b.
     move_from b (CHR ''a'', 7) (CHR ''a'', 5)))))))"

section \<open>Properties of placement\<close>

lemma valid_cpos_on_board: "valid_cpos cp \<Longrightarrow> on_board (chess_to_coord cp)"
  by (cases cp) (auto simp: valid_cpos_def on_board_def chess_to_coord_def)

lemma board_index_on_board: "on_board p \<Longrightarrow> board_index p = Some p"
  by (cases p) (simp add: on_board_def board_index_def np_index_def)

lemma setitem_occupied:
  "on_board (chess_to_coord cp) \<Longrightarrow> occupied b (chess_to_coord cp) \<Longrightarrow>
   setitem b cp v = (Some ValueError, b)"
  by (simp add: setitem_def occupied_def board_index_on_board Let_def)

lemma setitem_free:
  "on_board (chess_to_coord cp) \<Longrightarrow> \<not> occupied b (chess_to_coord cp) \<Longrightarrow>
   setitem b cp v = (None, b\<lparr>board := (board b)(chess_to_coord cp \<mapsto> v),
                             pieces := AList.update (chess_to_coord cp) v (pieces b)\<rparr>)"
  by (simp add: setitem_def occupied_def board_index_on_board Let_def)

section \<open>Agreement is kept by every operation\<close>

lemma upto07: "set [0..7::int] = {i. 0 \<le> i \<and> i < 8}"
  by auto

lemma set_squares: "set squares = {p. on_board p}"
  unfolding squares_def on_board_def set_concat set_map upto07
  by force

lemma keys_all: "list_all P (map fst d) \<longleftrightarrow> (\<forall>p. map_of d p \<noteq> None \<longrightarrow> P p)"
  by (induction d) auto

lemma agree_iff:
  "agree b \<longleftrightarrow> (\<forall>p. map_of (pieces b) p \<noteq> None \<longrightarrow> on_board p) \<and>
               (\<forall>p. on_board p \<longrightarrow> board b p = map_of (pieces b) p)"
  unfolding agree_def keys_all by (simp add: list_all_iff set_squares)

lemma then_do_simps [simp]:
  "then_do (None, b) f = f b"
  "then_do (Some e, b) f = (Some e, b)"
  by (simp_all add: then_do_def)

lemma agree_then_do:
  "agree (snd x) \<Longrightarrow> (\<And>b. agree b \<Longrightarrow> agree (snd (f b))) \<Longrightarrow> agree (snd (then_do x f))"
  by (cases x) (auto simp: then_do_def split: option.splits)

lemma agree_setitem:
  "agree b \<Longrightarrow> on_board (chess_to_coord cp) \<Longrightarrow> agree (snd (setitem b cp v))"
  by (simp add: setitem_def Let_def board_index_on_board agree_iff update_conv')

lemma agree_remove: "agree b \<Longrightarrow> agree (snd (remove b p))"
proof (cases "map_of (pieces b) p")
  case None
  assume "agree b"
  with None show ?thesis by (simp add: remove_def)
next
  case (Some r)
  assume a: "agree b"
  with Some have ob: "on_board p" unfolding agree_iff by blast
  with a Some show ?thesis
    by (simp add: remove_def Let_def board_index_on_board agree_iff delete_conv')
qed

lemma agree_fields [simp]:
  "agree (b\<lparr>heap := h\<rparr>) = agree b"
  "agree (b\<lparr>en_passant := e\<rparr>) = agree b"
  "agree (b\<lparr>kings := k\<rparr>) = agree b"
  "agree (b\<lparr>next_ref := n\<rparr>) = agree b"
  by (simp_all add: agree_def)


lemma agree_destroy: "agree b \<Longrightarrow> agree (snd (destroy b x))"
proof (cases x)
  case None
  assume "agree b"
  with None show ?thesis by (simp add: destroy_def)
next
  case (Some r)
  assume a: "agree b"
  have "agree (snd (then_do (remove b (position (heap b r)))
            (\<lambda>b1. (None, b1\<lparr>heap := (heap b1)(r := piece_destroy (heap b1 r))\<rparr>))))"
    by (rule agree_then_do) (simp_all add: agree_remove a)
  with Some show ?thesis by (simp add: destroy_def)
qed

lemma agree_move_capture: "agree b \<Longrightarrow> agree (snd (move_capture b p q))"
proof -
  assume a: "agree b"
  show ?thesis
  proof (cases "kind (heap b p) = Pawn")
    case True
    have "agree (snd (if Some q = fst (en_passant b) then destroy b (snd (en_passant b)) else (None, b)))"
      using a by (simp add: agree_destroy)
    then have "agree (snd (then_do (if Some q = fst (en_passant b) then destroy b (snd (en_passant b))
                 else (None, b))
          (\<lambda>b1. case move_set (heap b1 p) (position (heap b1 p)) of
                   None \<Rightarrow> (Some KeyError, b1)
                 | Some ms \<Rightarrow>
                     (None, b1\<lparr>en_passant :=
                         (case ms of [] \<Rightarrow> None | x # _ \<Rightarrow> Some x, Some p)\<rparr>))))"
      by (rule agree_then_do) (simp split: option.splits)
    with True show ?thesis by (simp add: move_capture_def)
  next
    case False
    have "agree (b\<lparr>en_passant := (None, None)\<rparr>)" using a by simp
    then have "agree (snd (destroy (b\<lparr>en_passant := (None, None)\<rparr>) (Some occ)))" for occ
      by (rule agree_destroy)
    with a False show ?thesis
      by (simp add: move_capture_def Let_def split: option.splits)
  qed
qed

lemma agree_move: 
  assumes "agree b" and "valid_cpos cp"
  shows "agree (snd (move b p cp))"
proof -
  have ob: "on_board (chess_to_coord cp)" using assms(2) by (rule valid_cpos_on_board)
  have "agree (snd (then_do (move_capture b p (to_coord cp))
        (\<lambda>b2. then_do (remove b2 (position (heap b2 p)))
           (\<lambda>b3. setitem (b3\<lparr>heap := (heap b3)(p := set_position (heap b3 p) (to_coord cp))\<rparr>)
                    cp p))))"
  proof (rule agree_then_do)
    show "agree (snd (move_capture b p (to_coord cp)))" using assms(1) by (rule agree_move_capture)
  next
    fix b2 assume b2: "agree b2"
    show "agree (snd (then_do (remove b2 (position (heap b2 p)))
           (\<lambda>b3. setitem (b3\<lparr>heap := (heap b3)(p := set_position (heap b3 p) (to_coord cp))\<rparr>)
                    cp p)))"
      by (rule agree_then_do) (simp_all add: agree_remove b2 agree_setitem ob)
  qed
  then show ?thesis by (simp add: move_def Let_def)
qed

lemma agree_put_piece:
  "agree b \<Longrightarrow> valid_cpos cp \<Longrightarrow> agree (snd (put_piece b cp ctor t))"
  by (simp add: put_piece_def to_both_coord_def alloc_def agree_setitem valid_cpos_on_board)

lemma agree_place_king:
  "agree b \<Longrightarrow> valid_cpos cp \<Longrightarrow> agree (snd (place_king b cp t))"
  by (simp add: place_king_def to_both_coord_def alloc_def agree_then_do agree_setitem valid_cpos_on_board)

lemma agree_empty: "agree empty_board"
  by (simp add: agree_iff empty_board_def)

section \<open>Claims about placement\<close>

text \<open>
  Claim C6. Placing a piece (\<^verbatim>\<open>__setitem__\<close>, and \<^verbatim>\<open>put_piece\<close> which calls it) on a
  square that already holds a piece raises \<^verbatim>\<open>ValueError\<close> and overwrites nothing: the
  grid, the dictionary, \<^verbatim>\<open>kings\<close> and \<^verbatim>\<open>en_passant\<close> are as before. On an empty square
  the piece is inserted into both the grid and the dictionary.
\<close>

theorem placement:
  assumes "valid_cpos cp"
  shows "(occupied b (chess_to_coord cp) \<longrightarrow>
            setitem b cp v = (Some ValueError, b) \<and>
            fst (put_piece b cp ctor t) = Some ValueError \<and>
            board (snd (put_piece b cp ctor t)) = board b \<and>
            pieces (snd (put_piece b cp ctor t)) = pieces b \<and>
            kings (snd (put_piece b cp ctor t)) = kings b \<and>
            en_passant (snd (put_piece b cp ctor t)) = en_passant b) \<and>
         (\<not> occupied b (chess_to_coord cp) \<longrightarrow>
            fst (setitem b cp v) = None \<and>
            board (snd (setitem b cp v)) (chess_to_coord cp) = Some v \<and>
            map_of (pieces (snd (setitem b cp v))) (chess_to_coord cp) = Some v \<and>
            fst (put_piece b cp ctor t) = None \<and>
            board (snd (put_piece b cp ctor t)) (chess_to_coord cp) = Some (next_ref b) \<and>
            map_of (pieces (snd (put_piece b cp ctor t))) (chess_to_coord cp) = Some (next_ref b) \<and>
            heap (snd (put_piece b cp ctor t)) (next_ref b) = ctor t (chess_to_coord cp))"
proof -
  have ob: "on_board (chess_to_coord cp)" using assms by (rule valid_cpos_on_board)
  have occ: "occupied (b\<lparr>heap := h, next_ref := n\<rparr>) p = occupied b p" for h n p
    by (simp add: occupied_def)
  show ?thesis
    by (simp add: put_piece_def to_both_coord_def alloc_def setitem_occupied setitem_free ob occ
        update_conv')
qed

theorem placement_witness:
  "valid_cpos (CHR ''d'', 2) \<and> occupied (snd pawn_board) (chess_to_coord (CHR ''d'', 2)) \<and>
   setitem (snd pawn_board) (CHR ''d'', 2) 5 = (Some ValueError, snd pawn_board) \<and>
   fst (put_piece (snd pawn_board) (CHR ''d'', 2) (new_piece Rook) Black) = Some ValueError \<and>
   pieces (snd (put_piece (snd pawn_board) (CHR ''d'', 2) (new_piece Rook) Black))
     = pieces (snd pawn_board) \<and>
   valid_cpos (CHR ''e'', 2) \<and> \<not> occupied (snd pawn_board) (chess_to_coord (CHR ''e'', 2)) \<and>
   fst (put_piece (snd pawn_board) (CHR ''e'', 2) (new_piece Rook) Black) = None \<and>
   map_of (pieces (snd (put_piece (snd pawn_board) (CHR ''e'', 2) (new_piece Rook) Black)))
     (chess_to_coord (CHR ''e'', 2)) = Some (next_ref (snd pawn_board))"
proof -
  have v1: "valid_cpos (CHR ''d'', 2)" by code_simp
  have o1: "occupied (snd pawn_board) (chess_to_coord (CHR ''d'', 2))" by code_simp
  have v2: "valid_cpos (CHR ''e'', 2)" by code_simp
  have o2: "\<not> occupied (snd pawn_board) (chess_to_coord (CHR ''e'', 2))" by code_simp
  show ?thesis
    using placement [OF v1, of "snd pawn_board" 5 "new_piece Rook" Black]
      placement [OF v2, of "snd pawn_board" 5 "new_piece Rook" Black] v1 o1 v2 o2
    by simp
qed

text \<open>
  Claim C10. \<^verbatim>\<open>place_king\<close> on an occupied square fails and leaves \<^verbatim>\<open>kings\<close>, the grid
  and the dictionary unchanged, because the square is assigned, and raises, before the king
  reference is; on an empty square it inserts the new King and sets \<^verbatim>\<open>kings[team]\<close> to it.
\<close>

theorem place_king_occupied_or_free:
  assumes "valid_cpos cp"
  shows "(occupied b (chess_to_coord cp) \<longrightarrow>
            fst (place_king b cp t) = Some ValueError \<and>
            kings (snd (place_king b cp t)) = kings b \<and>
            board (snd (place_king b cp t)) = board b \<and>
            pieces (snd (place_king b cp t)) = pieces b) \<and>
         (\<not> occupied b (chess_to_coord cp) \<longrightarrow>
            fst (place_king b cp t) = None \<and>
            board (snd (place_king b cp t)) (chess_to_coord cp) = Some (next_ref b) \<and>
            map_of (pieces (snd (place_king b cp t))) (chess_to_coord cp) = Some (next_ref b) \<and>
            kings (snd (place_king b cp t)) t = Some (next_ref b) \<and>
            heap (snd (place_king b cp t)) (next_ref b) = new_piece King t (chess_to_coord cp))"
proof -
  have ob: "on_board (chess_to_coord cp)" using assms by (rule valid_cpos_on_board)
  have occ: "occupied (b\<lparr>heap := h, next_ref := n\<rparr>) p = occupied b p" for h n p
    by (simp add: occupied_def)
  show ?thesis
    by (simp add: place_king_def to_both_coord_def alloc_def setitem_occupied setitem_free ob occ
        update_conv')
qed

theorem place_king_witness:
  "valid_cpos (CHR ''d'', 2) \<and> occupied (snd pawn_board) (chess_to_coord (CHR ''d'', 2)) \<and>
   fst (place_king (snd pawn_board) (CHR ''d'', 2) White) = Some ValueError \<and>
   kings (snd (place_king (snd pawn_board) (CHR ''d'', 2) White)) = kings (snd pawn_board) \<and>
   valid_cpos (CHR ''e'', 1) \<and> \<not> occupied (snd pawn_board) (chess_to_coord (CHR ''e'', 1)) \<and>
   fst (place_king (snd pawn_board) (CHR ''e'', 1) White) = None \<and>
   kings (snd (place_king (snd pawn_board) (CHR ''e'', 1) White)) White
     = Some (next_ref (snd pawn_board))"
proof -
  have v1: "valid_cpos (CHR ''d'', 2)" by code_simp
  have o1: "occupied (snd pawn_board) (chess_to_coord (CHR ''d'', 2))" by code_simp
  have v2: "valid_cpos (CHR ''e'', 1)" by code_simp
  have o2: "\<not> occupied (snd pawn_board) (chess_to_coord (CHR ''e'', 1))" by code_simp
  show ?thesis
    using place_king_occupied_or_free [OF v1, of "snd pawn_board" White]
      place_king_occupied_or_free [OF v2, of "snd pawn_board" White] v1 o1 v2 o2
    by simp
qed

text \<open>
  Claim C7. The grid and the dictionary stay in agreement under every mutation of the
  board, in particular under every successful one: after \<^verbatim>\<open>__setitem__\<close>, \<^verbatim>\<open>put_piece\<close>,
  \<^verbatim>\<open>place_king\<close>, \<^verbatim>\<open>remove\<close> and \<^verbatim>\<open>move\<close>, a square of the grid holds a piece if and only
  if the dictionary has an entry for that position, and the entry is the same piece.
\<close>

theorem agreement_preserved:
  assumes "agree b" and "valid_cpos cp"
  shows "agree (snd (setitem b cp v)) \<and>
         agree (snd (put_piece b cp ctor t)) \<and>
         agree (snd (place_king b cp t)) \<and>
         agree (snd (remove b p)) \<and>
         agree (snd (move b piece cp))"
  using assms
  by (simp add: agree_setitem valid_cpos_on_board agree_put_piece agree_place_king agree_remove
      agree_move)

theorem agreement_preserved_witness:
  "agree (snd board4) \<and> valid_cpos (CHR ''d'', 3) \<and>
   fst (move (snd board4) 2 (CHR ''d'', 3)) = None \<and>
   agree (snd (move (snd board4) 2 (CHR ''d'', 3))) \<and>
   fst (remove (snd board4) (3, 4)) = None \<and>
   agree (snd (remove (snd board4) (3, 4))) \<and>
   fst (put_piece (snd board4) (CHR ''d'', 3) (new_piece Queen) White) = None \<and>
   agree (snd (put_piece (snd board4) (CHR ''d'', 3) (new_piece Queen) White)) \<and>
   fst (place_king (snd board4) (CHR ''d'', 3) White) = None \<and>
   agree (snd (place_king (snd board4) (CHR ''d'', 3) White))"
proof -
  have a: "agree (snd board4)" by code_simp
  have v: "valid_cpos (CHR ''d'', 3)" by code_simp
  have m: "fst (move (snd board4) 2 (CHR ''d'', 3)) = None" by code_simp
  have r: "fst (remove (snd board4) (3, 4)) = None" by code_simp
  have p: "fst (put_piece (snd board4) (CHR ''d'', 3) (new_piece Queen) White) = None"
    by code_simp
  have k: "fst (place_king (snd board4) (CHR ''d'', 3) White) = None" by code_simp
  show ?thesis
    using agreement_preserved [OF a v, of 0 "new_piece Queen" White "(3, 4)" 2] a v m r p k
    by simp
qed

section \<open>Claims about moves\<close>

lemma remove_keeps:
  "en_passant (snd (remove b x)) = en_passant b"
  "heap (snd (remove b x)) = heap b"
  "kings (snd (remove b x)) = kings b"
  by (simp_all add: remove_def Let_def split: option.splits)

lemma setitem_keeps:
  "en_passant (snd (setitem b cp v)) = en_passant b"
  "heap (snd (setitem b cp v)) = heap b"
  "kings (snd (setitem b cp v)) = kings b"
  by (simp_all add: setitem_def Let_def split: option.splits)

lemma destroy_keeps:
  "en_passant (snd (destroy b x)) = en_passant b"
  "move_set (heap (snd (destroy b x)) p) = move_set (heap b p)"
  "position (heap (snd (destroy b x)) p) = position (heap b p)"
  "kind (heap (snd (destroy b x)) p) = kind (heap b p)"
  "team (heap (snd (destroy b x)) p) = team (heap b p)"
  "\<not> alive (heap b p) \<Longrightarrow> \<not> alive (heap (snd (destroy b x)) p)"
  by (simp_all add: destroy_def remove_def then_do_def Let_def piece_destroy_def
      split: option.splits)

lemma remove_absent:
  "map_of (pieces b) q = None \<Longrightarrow> map_of (pieces (snd (remove b x))) q = None"
  by (simp add: remove_def Let_def delete_conv' split: option.splits)

lemma remove_vacant:
  "board b q = None \<Longrightarrow> board (snd (remove b x)) q = None"
  by (simp add: remove_def Let_def split: option.splits)

lemma destroy_recorded:
  assumes "map_of (pieces b) (position (heap b r)) \<noteq> None"
    and "on_board (position (heap b r))"
  shows "fst (destroy b (Some r)) = None \<and>
         \<not> alive (heap (snd (destroy b (Some r))) r) \<and>
         map_of (pieces (snd (destroy b (Some r)))) (position (heap b r)) = None \<and>
         board (snd (destroy b (Some r))) (position (heap b r)) = None"
  using assms
  by (auto simp: destroy_def remove_def Let_def board_index_on_board delete_conv'
      piece_destroy_def)

lemma then_do_keeps:
  "P (snd x) \<Longrightarrow> (\<And>b. P b \<Longrightarrow> P (snd (f b))) \<Longrightarrow> P (snd (then_do x f))"
  by (cases x) (auto simp: then_do_def split: option.splits)

lemma setitem_elsewhere:
  assumes "on_board (chess_to_coord cp)" and "chess_to_coord cp \<noteq> q"
    and "map_of (pieces b) q = None \<and> board b q = None"
  shows "map_of (pieces (snd (setitem b cp v))) q = None \<and> board (snd (setitem b cp v)) q = None"
  using assms by (simp add: setitem_def Let_def board_index_on_board update_conv')

lemma move_capture_en_passant:
  assumes "kind (heap b p) = Pawn" and "en_passant b = (Some npos, Some r)"
  shows "move_capture b p npos =
           then_do (destroy b (Some r))
             (\<lambda>b1. case move_set (heap b1 p) (position (heap b1 p)) of
                      None \<Rightarrow> (Some KeyError, b1)
                    | Some ms \<Rightarrow>
                        (None, b1\<lparr>en_passant :=
                            (case ms of [] \<Rightarrow> None | x # _ \<Rightarrow> Some x, Some p)\<rparr>))"
  using assms by (simp add: move_capture_def)

text \<open>
  Claim C5. When a Pawn moves to the square recorded in \<^verbatim>\<open>en_passant\<close>, \<^verbatim>\<open>move\<close> first
  destroys the pawn recorded there: whatever the rest of the move does, and even if a
  later step raises, that pawn is no longer live, and, the moving pawn not landing on its
  square, that square is empty in the grid and in the dictionary.
\<close>

theorem en_passant_capture:
  assumes pawn: "kind (heap b p) = Pawn"
    and ep: "en_passant b = (Some (to_coord dst), Some r)"
    and there: "map_of (pieces b) (position (heap b r)) \<noteq> None"
    and ob: "on_board (position (heap b r))"
    and dst: "valid_cpos dst"
  shows "\<not> alive (heap (snd (move b p dst)) r) \<and>
         (to_coord dst \<noteq> position (heap b r) \<longrightarrow>
            map_of (pieces (snd (move b p dst))) (position (heap b r)) = None \<and>
            board (snd (move b p dst)) (position (heap b r)) = None)"
proof -
  let ?q = "position (heap b r)"
  let ?n = "to_coord dst"
  let ?step = "\<lambda>b1 :: Board. case move_set (heap b1 p) (position (heap b1 p)) of
                      None \<Rightarrow> (Some KeyError, b1)
                    | Some ms \<Rightarrow>
                        (None, b1\<lparr>en_passant :=
                            (case ms of [] \<Rightarrow> None | x # _ \<Rightarrow> Some x, Some p)\<rparr>)"
  let ?tail = "\<lambda>b2 :: Board. then_do (remove b2 (position (heap b2 p)))
           (\<lambda>b3. setitem (b3\<lparr>heap := (heap b3)(p := set_position (heap b3 p) ?n)\<rparr>) dst p)"
  have mv: "move b p dst = then_do (then_do (destroy b (Some r)) ?step) ?tail"
    by (simp add: move_def Let_def move_capture_en_passant [OF pawn ep])
  have d: "\<not> alive (heap (snd (destroy b (Some r))) r)"
    "map_of (pieces (snd (destroy b (Some r)))) ?q = None \<and> board (snd (destroy b (Some r))) ?q = None"
    using destroy_recorded [OF there ob] by simp_all
  have dead: "\<not> alive (heap (snd (move b p dst)) r)"
    unfolding mv
  proof (intro then_do_keeps [where P = "\<lambda>b. \<not> alive (heap b r)"])
    show "\<not> alive (heap (snd (destroy b (Some r))) r)" by (rule d)
  next
    fix b1 :: Board assume "\<not> alive (heap b1 r)"
    then show "\<not> alive (heap (snd (?step b1)) r)" by (simp split: option.splits)
  next
    fix b2 :: Board assume "\<not> alive (heap b2 r)"
    then show "\<not> alive (heap (snd (remove b2 (position (heap b2 p)))) r)"
      by (simp add: remove_keeps)
  next
    fix b3 :: Board assume "\<not> alive (heap b3 r)"
    then show "\<not> alive (heap (snd (setitem (b3\<lparr>heap := (heap b3)(p := set_position (heap b3 p) ?n)\<rparr>) dst p)) r)"
      by (auto simp: setitem_keeps set_position_def)
  qed
  have gone: "map_of (pieces (snd (move b p dst))) ?q = None \<and> board (snd (move b p dst)) ?q = None"
    if ne: "?n \<noteq> ?q"
    unfolding mv
  proof (intro then_do_keeps [where P = "\<lambda>b. map_of (pieces b) ?q = None \<and> board b ?q = None"])
    show "map_of (pieces (snd (destroy b (Some r)))) ?q = None \<and> board (snd (destroy b (Some r))) ?q = None"
      by (rule d)
  next
    fix b1 :: Board assume "map_of (pieces b1) ?q = None \<and> board b1 ?q = None"
    then show "map_of (pieces (snd (?step b1))) ?q = None \<and> board (snd (?step b1)) ?q = None"
      by (simp split: option.splits)
  next
    fix b2 :: Board assume "map_of (pieces b2) ?q = None \<and> board b2 ?q = None"
    then show "map_of (pieces (snd (remove b2 (position (heap b2 p))))) ?q = None \<and>
               board (snd (remove b2 (position (heap b2 p)))) ?q = None"
      by (simp add: remove_absent remove_vacant)
  next
    fix b3 :: Board assume a: "map_of (pieces b3) ?q = None \<and> board b3 ?q = None"
    show "map_of (pieces (snd (setitem (b3\<lparr>heap := (heap b3)(p := set_position (heap b3 p) ?n)\<rparr>) dst p))) ?q = None \<and>
          board (snd (setitem (b3\<lparr>heap := (heap b3)(p := set_position (heap b3 p) ?n)\<rparr>) dst p)) ?q = None"
      by (rule setitem_elsewhere)
         (use a ne valid_cpos_on_board [OF dst] in \<open>simp_all add: to_coord_def\<close>)
  qed
  from dead gone show ?thesis by blast
qed

theorem en_passant_capture_witness:
  "kind (heap (snd board4) 2) = Pawn \<and>
   en_passant (snd board4) = (Some (to_coord (CHR ''d'', 3)), Some 3) \<and>
   position (heap (snd board4) 3) = (3, 4) \<and>
   map_of (pieces (snd board4)) (3, 4) = Some 3 \<and>
   fst (move (snd board4) 2 (CHR ''d'', 3)) = None \<and>
   position (heap (snd (move (snd board4) 2 (CHR ''d'', 3))) 2) = (3, 5) \<and>
   \<not> alive (heap (snd (move (snd board4) 2 (CHR ''d'', 3))) 3) \<and>
   map_of (pieces (snd (move (snd board4) 2 (CHR ''d'', 3)))) (3, 4) = None \<and>
   board (snd (move (snd board4) 2 (CHR ''d'', 3))) (3, 4) = None"
proof -
  have k: "kind (heap (snd board4) 2) = Pawn" by code_simp
  have e: "en_passant (snd board4) = (Some (to_coord (CHR ''d'', 3)), Some 3)" by code_simp
  have q: "position (heap (snd board4) 3) = (3, 4)" by code_simp
  have m: "map_of (pieces (snd board4)) (3, 4) = Some 3" by code_simp
  have t: "map_of (pieces (snd board4)) (position (heap (snd board4) 3)) \<noteq> None"
    using q m by simp
  have o: "on_board (position (heap (snd board4) 3))" using q by (simp add: on_board_def)
  have v: "valid_cpos (CHR ''d'', 3)" by code_simp
  have n: "to_coord (CHR ''d'', 3) \<noteq> position (heap (snd board4) 3)" by code_simp
  have s: "fst (move (snd board4) 2 (CHR ''d'', 3)) = None" by code_simp
  have l: "position (heap (snd (move (snd board4) 2 (CHR ''d'', 3))) 2) = (3, 5)" by code_simp
  show ?thesis
    using en_passant_capture [OF k e t o v] k e q m n s l by simp
qed

text \<open>
  Claim C1 asks that \<^verbatim>\<open>move\<close> destroys a different piece standing on the destination and
  then puts the moving piece there. The capture of the occupant (line 95) is in the branch
  of the pieces that are not pawns. Evaluated on a white pawn on e4 taking a black knight
  on d5, with no en-passant square set: the knight is not destroyed and stays on d5, the
  pawn is taken off e4, and \<^verbatim>\<open>__setitem__\<close> raises \<^verbatim>\<open>ValueError\<close>, so the pawn is on no square.
\<close>

theorem pawn_capture_raises:
  "fst capture_board = None \<and>
   kind (heap (snd capture_board) 0) = Pawn \<and>
   position (heap (snd capture_board) 0) = (4, 4) \<and>
   to_coord (CHR ''d'', 5) = (3, 3) \<and>
   map_of (pieces (snd capture_board)) (3, 3) = Some 1 \<and>
   en_passant (snd capture_board) = (None, None) \<and>
   fst (move (snd capture_board) 0 (CHR ''d'', 5)) = Some ValueError \<and>
   alive (heap (snd (move (snd capture_board) 0 (CHR ''d'', 5))) 1) \<and>
   map_of (pieces (snd (move (snd capture_board) 0 (CHR ''d'', 5)))) (3, 3) = Some 1 \<and>
   board (snd (move (snd capture_board) 0 (CHR ''d'', 5))) (3, 3) = Some 1 \<and>
   map_of (pieces (snd (move (snd capture_board) 0 (CHR ''d'', 5)))) (4, 4) = None \<and>
   board (snd (move (snd capture_board) 0 (CHR ''d'', 5))) (4, 4) = None"
  by code_simp

text \<open>
  Claim C3 has every pawn move that is not a double advance leave the en-passant square
  cleared. \<^verbatim>\<open>move\<close> computes the square from the pawn's \<^verbatim>\<open>move_set\<close> entry for the square
  it leaves and never reads the destination. A pawn on d2 that advances one square to d3
  leaves the en-passant square set (to d3), exactly as the double advance to d4 does.
\<close>

theorem single_advance_sets_en_passant:
  "fst pawn_board = None \<and>
   kind (heap (snd pawn_board) 0) = Pawn \<and>
   position (heap (snd pawn_board) 0) = (3, 6) \<and>
   to_coord (CHR ''d'', 3) = (3, 5) \<and>
   fst (move (snd pawn_board) 0 (CHR ''d'', 3)) = None \<and>
   position (heap (snd (move (snd pawn_board) 0 (CHR ''d'', 3))) 0) = (3, 5) \<and>
   fst (en_passant (snd (move (snd pawn_board) 0 (CHR ''d'', 3)))) = Some (3, 5) \<and>
   en_passant (snd (move (snd pawn_board) 0 (CHR ''d'', 3)))
     = en_passant (snd (move (snd pawn_board) 0 (CHR ''d'', 4)))"
  by code_simp

lemma move_capture_result:
  "fst (move_capture b p n) = None \<Longrightarrow>
   en_passant (snd (move_capture b p n)) =
     (if kind (heap b p) = Pawn
      then (case move_set (heap b p) (position (heap b p)) of
              Some (x # _) \<Rightarrow> Some x | _ \<Rightarrow> None, Some p)
      else (None, None))"
proof (cases "kind (heap b p) = Pawn")
  case False
  then show ?thesis
    using destroy_keeps(1) [of "b\<lparr>en_passant := (None, None)\<rparr>"]
    by (simp add: move_capture_def Let_def split: option.splits)
next
  case True
  assume ok: "fst (move_capture b p n) = None"
  let ?x = "if Some n = fst (en_passant b) then destroy b (snd (en_passant b)) else (None, b)"
  have h: "move_set (heap (snd ?x) p) = move_set (heap b p)"
          "position (heap (snd ?x) p) = position (heap b p)"
    by (simp_all add: destroy_keeps)
  show ?thesis
  proof (cases ?x)
    case (Pair e b1)
    with h have h1: "move_set (heap b1 p) = move_set (heap b p)"
      "position (heap b1 p) = position (heap b p)" by simp_all
    from ok True Pair show ?thesis
      by (cases e; cases "move_set (heap b p) (position (heap b p))")
         (auto simp: move_capture_def h1 split: list.splits)
  qed
qed

text \<open>
  Claim C3, amended. Every successful move rewrites \<^verbatim>\<open>en_passant\<close>: a move of a piece that
  is not a pawn leaves it cleared to (none, none); a move of a Pawn sets it to the first
  square of the pawn's recorded move set for the square it leaves, or none if that set is
  empty, together with the pawn, whatever the destination is.
\<close>

theorem move_rewrites_en_passant:
  assumes "fst (move b p dst) = None"
  shows "en_passant (snd (move b p dst)) =
     (if kind (heap b p) = Pawn
      then (case move_set (heap b p) (position (heap b p)) of
              Some (x # _) \<Rightarrow> Some x | _ \<Rightarrow> None, Some p)
      else (None, None))"
proof -
  let ?mc = "move_capture b p (to_coord dst)"
  let ?tail = "\<lambda>b2 :: Board. then_do (remove b2 (position (heap b2 p)))
           (\<lambda>b3. setitem (b3\<lparr>heap := (heap b3)(p := set_position (heap b3 p) (to_coord dst))\<rparr>) dst p)"
  have mv: "move b p dst = then_do ?mc ?tail" by (simp add: move_def Let_def)
  have tail: "en_passant (snd (?tail b2)) = en_passant b2" for b2
  proof -
    obtain e b3 where r: "remove b2 (position (heap b2 p)) = (e, b3)"
      by (cases "remove b2 (position (heap b2 p))")
    have "en_passant b3 = en_passant b2"
      using remove_keeps(1) [of b2 "position (heap b2 p)"] r by simp
    then show ?thesis using r by (cases e) (simp_all add: setitem_keeps)
  qed
  obtain e b2 where mc: "?mc = (e, b2)" by (cases ?mc)
  with assms mv have e: "e = None" by (cases e) simp_all
  with mc have "fst ?mc = None" by simp
  from move_capture_result [OF this] mc have "en_passant b2 = (if kind (heap b p) = Pawn
      then (case move_set (heap b p) (position (heap b p)) of
              Some (x # _) \<Rightarrow> Some x | _ \<Rightarrow> None, Some p)
      else (None, None))" by simp
  with mv mc e tail [of b2] show ?thesis by simp
qed

theorem move_rewrites_en_passant_witness:
  "fst (move (snd pawn_board) 0 (CHR ''d'', 4)) = None \<and>
   en_passant (snd (move (snd pawn_board) 0 (CHR ''d'', 4))) = (Some (3, 5), Some 0) \<and>
   fst (move_from (snd board4) (CHR ''c'', 5) (CHR ''c'', 6)) = None \<and>
   en_passant (snd (move_from (snd board4) (CHR ''c'', 5) (CHR ''c'', 6))) = (None, None)"
proof -
  have s: "fst (move (snd pawn_board) 0 (CHR ''d'', 4)) = None" by code_simp
  have k: "kind (heap (snd pawn_board) 0) = Pawn" by code_simp
  have m: "move_set (heap (snd pawn_board) 0) (position (heap (snd pawn_board) 0)) = Some [(3, 5)]"
    by code_simp
  have g: "getitem (snd board4) (CHR ''c'', 5) = Inr (Some 0)" by code_simp
  have f: "move_from (snd board4) (CHR ''c'', 5) (CHR ''c'', 6) = move (snd board4) 0 (CHR ''c'', 6)"
    by (simp add: move_from_def g)
  have s2: "fst (move (snd board4) 0 (CHR ''c'', 6)) = None" by code_simp
  have k2: "kind (heap (snd board4) 0) = King" by code_simp
  show ?thesis
    using move_rewrites_en_passant [OF s] move_rewrites_en_passant [OF s2] s k m f s2 k2
    by simp
qed

section \<open>Claims about attackers and legal moves\<close>

lemma attackers_loop_shape:
  assumes "length acc < 2" and "\<forall>a \<in> set acc. attacker_ok b d a" and "set rest \<subseteq> set d"
  shows "length (attackers_loop pm b t rdng bdng kdng pdng rest acc) \<le> 2 \<and>
         (\<forall>a \<in> set (attackers_loop pm b t rdng bdng kdng pdng rest acc). attacker_ok b d a)"
  using assms
proof (induction rest arbitrary: acc)
  case Nil
  then show ?case by simp
next
  case (Cons x rest)
  obtain pos r where x: "x = (pos, r)" by (cases x)
  from Cons.prems(3) x have mem: "(pos, r) \<in> set d" and sub: "set rest \<subseteq> set d" by auto
  show ?case
  proof (cases "team (heap b r) = t \<or> kind (heap b r) = King")
    case True
    with Cons.IH [OF Cons.prems(1,2) sub] x show ?thesis by simp
  next
    case False
    let ?acc' = "(if (kind (heap b r) = Bishop \<or> kind (heap b r) = Queen) \<and> pos \<in> bdng
            then acc @ [(r, bdng \<inter> get_moves pm (heap b) (pieces b)
                                      (new_piece Bishop (team_not t) pos) None)]
            else if (kind (heap b r) = Rook \<or> kind (heap b r) = Queen) \<and> pos \<in> rdng
            then acc @ [(r, rdng \<inter> get_moves pm (heap b) (pieces b)
                                      (new_piece Rook (team_not t) pos) None)]
            else if kind (heap b r) = Knight \<and> pos \<in> kdng then acc @ [(r, {pos})]
            else if kind (heap b r) = Pawn \<and> pos \<in> pdng then acc @ [(r, {pos})]
            else acc)"
    have len: "length ?acc' \<le> 2" using Cons.prems(1) by simp
    have jumper: "attacker_ok b d (r, {pos})"
      unfolding attacker_ok_def using False mem by (intro conjI impI exI [of _ pos]) simp_all
    have slider: "attacker_ok b d (r, s)"
      if "kind (heap b r) = Bishop \<or> kind (heap b r) = Queen \<or> kind (heap b r) = Rook" for s
      using that by (auto simp: attacker_ok_def)
    have ok: "\<forall>a \<in> set ?acc'. attacker_ok b d a"
      using Cons.prems(2) jumper slider by auto
    show ?thesis
    proof (cases "length ?acc' \<ge> 2")
      case True
      with False x len ok show ?thesis by (simp add: Let_def)
    next
      case short: False
      then have "length ?acc' < 2" by simp
      from Cons.IH [OF this ok sub] False x short show ?thesis by (simp add: Let_def)
    qed
  qed
qed

text \<open>
  Claim C9. \<^verbatim>\<open>get_attackers\<close> returns at most two attackers (the loop returns as soon as
  it has two), never a King, and every Knight or Pawn among them is paired with the
  singleton set of the square it stands on, the key under which \<^verbatim>\<open>_pieces\<close> holds it.
\<close>

theorem get_attackers_shape:
  assumes "get_attackers pm b t = Inr xs"
  shows "length xs \<le> 2 \<and>
         (\<forall>a \<in> set xs.
            kind (heap b (fst a)) \<noteq> King \<and>
            (kind (heap b (fst a)) = Knight \<or> kind (heap b (fst a)) = Pawn \<longrightarrow>
               (\<exists>pos. (pos, fst a) \<in> set (pieces b) \<and> snd a = {pos})))"
proof -
  from assms obtain rdng bdng kdng pdng where
    xs: "xs = attackers_loop pm b t rdng bdng kdng pdng (pieces b) []"
    by (auto simp: get_attackers_def Let_def split: option.splits)
  have "length xs \<le> 2 \<and> (\<forall>a \<in> set xs. attacker_ok b (pieces b) a)"
    unfolding xs by (rule attackers_loop_shape) simp_all
  then show ?thesis by (simp add: attacker_ok_def)
qed

theorem get_attackers_shape_witness:
  "get_attackers spec_pieces (snd double_check_board) White
     = Inr [(2, {(4, 1), (4, 2), (4, 3), (4, 4), (4, 5), (4, 6)}), (3, {(5, 5)})] \<and>
   kind (heap (snd double_check_board) 2) = Rook \<and>
   kind (heap (snd double_check_board) 3) = Knight \<and>
   (\<exists>pos. (pos, 3) \<in> set (pieces (snd double_check_board)) \<and> {(5, 5)} = {pos})"
proof -
  have g: "get_attackers spec_pieces (snd double_check_board) White
     = Inr [(2, {(4, 1), (4, 2), (4, 3), (4, 4), (4, 5), (4, 6)}), (3, {(5, 5)})]"
    by code_simp
  have k: "kind (heap (snd double_check_board) 2) = Rook"
    "kind (heap (snd double_check_board) 3) = Knight" by code_simp+
  show ?thesis
    using get_attackers_shape [OF g] g k by simp
qed

lemma team_not_iff: "x \<noteq> t \<longleftrightarrow> x = team_not t"
  by (cases x; cases t) simp_all

lemma collect_moves_fold:
  "snd (fold (\<lambda>(pos, r) (pmoves, dzone).
             if team (h r) \<noteq> t
             then (pmoves, dzone \<union> dzf (h r))
             else (AList.update pos (mvf (h r)) pmoves, dzone)) xs (pm0, dz0))
   = fold (\<lambda>(pos, r) danger. if team (h r) = team_not t then danger \<union> dzf (h r) else danger)
       xs dz0"
  by (induction xs arbitrary: pm0 dz0) (auto simp: team_not_iff [symmetric])

lemma collect_moves_dzone:
  "snd (collect_moves pm b t) = get_danger_zone pm b (team_not t)"
  unfolding collect_moves_def get_danger_zone_def by (rule collect_moves_fold)

text \<open>
  Claim C8. In the mapping that \<^verbatim>\<open>legal_moves\<close> returns, the move set of the King of the
  team is disjoint from the whole danger zone of the opposing team, whatever the number of
  attackers is.
\<close>

theorem king_moves_avoid_danger_zone:
  assumes "legal_moves pm b t = Inr m" and "kings b t = Some k"
  shows "\<exists>s. map_of m (position (heap b k)) = Some s \<and>
              s \<inter> get_danger_zone pm b (team_not t) = {}"
proof -
  obtain pmoves dzone where c: "collect_moves pm b t = (pmoves, dzone)"
    by (cases "collect_moves pm b t")
  then have dz: "dzone = get_danger_zone pm b (team_not t)"
    using collect_moves_dzone [of pm b t] by simp
  from assms c obtain pmoves2 s where
    "m = AList.update (position (heap b k)) (s - dzone) pmoves2"
    by (auto simp: legal_moves_def split: sum.splits option.splits if_splits)
  then have "map_of m (position (heap b k)) = Some (s - dzone)"
    by (simp add: update_conv')
  with dz show ?thesis by auto
qed

theorem king_moves_avoid_danger_zone_witness:
  "legal_moves spec_pieces (snd check_board) White
     = Inr [((4, 7), {(5, 6), (3, 6), (5, 7), (3, 7)}), ((7, 6), {(0, 2)})] \<and>
   kings (snd check_board) White = Some 0 \<and>
   position (heap (snd check_board) 0) = (4, 7) \<and>
   (4, 6) \<in> get_danger_zone spec_pieces (snd check_board) (team_not White) \<and>
   {(5, 6), (3, 6), (5, 7), (3, 7)} \<inter> get_danger_zone spec_pieces (snd check_board) (team_not White) = {}"
proof -
  have l: "legal_moves spec_pieces (snd check_board) White
     = Inr [((4, 7), {(5, 6), (3, 6), (5, 7), (3, 7)}), ((7, 6), {(0, 2)})]" by code_simp
  have k: "kings (snd check_board) White = Some 0" by code_simp
  have p: "position (heap (snd check_board) 0) = (4, 7)" by code_simp
  have d: "(4, 6) \<in> get_danger_zone spec_pieces (snd check_board) (team_not White)" by code_simp
  show ?thesis
    using king_moves_avoid_danger_zone [OF l k] l k p d by simp
qed

lemma collect_fold_keeps_key:
  "map_of pm0 pos \<noteq> None \<Longrightarrow>
   map_of (fst (fold (\<lambda>(pos, r) (pmoves, dzone).
             if team (h r) \<noteq> t
             then (pmoves, dzone \<union> dzf (h r))
             else (AList.update pos (mvf (h r)) pmoves, dzone)) xs (pm0, dz0))) pos \<noteq> None"
proof (induction xs arbitrary: pm0 dz0)
  case Nil
  then show ?case by simp
next
  case (Cons x xs)
  obtain q r where x: "x = (q, r)" by (cases x)
  show ?case
  proof (cases "team (h r) = t")
    case True
    have "map_of (AList.update q (mvf (h r)) pm0) pos \<noteq> None"
      using Cons.prems by (simp add: update_conv')
    from Cons.IH [OF this, of dz0] True x show ?thesis by simp
  next
    case False
    with x Cons.IH [OF Cons.prems, of "dz0 \<union> dzf (h r)"] show ?thesis by simp
  qed
qed

lemma collect_fold_adds_key:
  "(pos, r) \<in> set xs \<Longrightarrow> team (h r) = t \<Longrightarrow>
   map_of (fst (fold (\<lambda>(pos, r) (pmoves, dzone).
             if team (h r) \<noteq> t
             then (pmoves, dzone \<union> dzf (h r))
             else (AList.update pos (mvf (h r)) pmoves, dzone)) xs (pm0, dz0))) pos \<noteq> None"
proof (induction xs arbitrary: pm0 dz0)
  case Nil
  then show ?case by simp
next
  case (Cons x xs)
  obtain q r' where x: "x = (q, r')" by (cases x)
  show ?case
  proof (cases "x = (pos, r)")
    case True
    have "map_of (AList.update pos (mvf (h r)) pm0) pos \<noteq> None" by (simp add: update_conv')
    from collect_fold_keeps_key [OF this, of h t dzf mvf xs dz0] True Cons.prems(2)
    show ?thesis by simp
  next
    case False
    with Cons.prems(1) have mem: "(pos, r) \<in> set xs" by simp
    show ?thesis
    proof (cases "team (h r') = t")
      case True
      with x Cons.IH [OF mem Cons.prems(2), of "AList.update q (mvf (h r')) pm0" dz0]
      show ?thesis by simp
    next
      case False
      with x Cons.IH [OF mem Cons.prems(2), of pm0 "dz0 \<union> dzf (h r')"] show ?thesis by simp
    qed
  qed
qed

lemma collect_moves_keys:
  assumes "map_of (pieces b) pos = Some r" and "team (heap b r) = t"
  shows "map_of (fst (collect_moves pm b t)) pos \<noteq> None"
proof -
  from assms(1) have "(pos, r) \<in> set (pieces b)" by (rule map_of_SomeD)
  then show ?thesis
    unfolding collect_moves_def
    by (rule collect_fold_adds_key [where h = "heap b"]) (rule assms(2))
qed

lemma apply_pins_keys:
  "apply_pins h pins pmoves = Inr res \<Longrightarrow> map_of pmoves pos \<noteq> None \<Longrightarrow>
   map_of res pos \<noteq> None"
proof (induction pins arbitrary: pmoves)
  case Nil
  then show ?case by simp
next
  case (Cons x pins)
  obtain r rs where x: "x = (r, rs)" by (cases x)
  from Cons.prems(1) x obtain s where
    rest: "apply_pins h pins (AList.update (position (h r)) (s \<inter> rs) pmoves) = Inr res"
    by (auto split: option.splits)
  have "map_of (AList.update (position (h r)) (s \<inter> rs) pmoves) pos \<noteq> None"
    using Cons.prems(2) by (simp add: update_conv')
  from Cons.IH [OF rest this] show ?case .
qed

lemma check_loop_adds_en_passant:
  assumes "check_loop b kingpos blk pmoves = Inr res"
    and "fst (en_passant b) = Some ep"
    and "map_of pmoves pos \<noteq> None" and "pos \<noteq> kingpos"
    and "map_of (pieces b) pos = Some r" and "kind (heap b r) = Pawn"
  shows "\<exists>s. map_of res pos = Some s \<and> ep \<in> s"
  using assms(1,3)
proof (induction pmoves arbitrary: res)
  case Nil
  then show ?case by simp
next
  case (Cons x pmoves)
  obtain q s where x: "x = (q, s)" by (cases x)
  show ?case
  proof (cases "q = pos")
    case True
    with Cons.prems(1) x assms(2,4,5,6) show ?thesis
      by (auto split: sum.splits)
  next
    case False
    with Cons.prems(2) x have in_rest: "map_of pmoves pos \<noteq> None" by simp
    from Cons.prems(1) x obtain s' rest' where
      res: "res = (q, s') # rest'" and rest: "check_loop b kingpos blk pmoves = Inr rest'"
      by (auto split: sum.splits)
    from Cons.IH [OF rest in_rest] res False show ?thesis by simp
  qed
qed

text \<open>Under check, with an en-passant square set, the loop of lines 273 to 278 adds
  that square to the move set of every friendly pawn, for every geometry of the pieces
  and every number of attackers.\<close>

lemma en_passant_added_under_check:
  assumes lm: "legal_moves pm b t = Inr m"
    and att: "get_attackers pm b t = Inr attackers" and "attackers \<noteq> []"
    and king: "kings b t = Some k"
    and ep: "fst (en_passant b) = Some ep"
    and pawn: "map_of (pieces b) pos = Some r" "team (heap b r) = t" "kind (heap b r) = Pawn"
    and notking: "pos \<noteq> position (heap b k)"
  shows "\<exists>s. map_of m pos = Some s \<and> ep \<in> s"
proof -
  obtain pmoves dzone where c: "collect_moves pm b t = (pmoves, dzone)"
    by (cases "collect_moves pm b t")
  from collect_moves_keys [OF pawn(1,2), of pm] c have k0: "map_of pmoves pos \<noteq> None" by simp
  from lm c king att \<open>attackers \<noteq> []\<close> obtain pmoves1 pmoves2 s where
    p1: "apply_pins (heap b) (check_pins pm (heap b) (pieces b) (heap b k)) pmoves = Inr pmoves1"
    and p2: "check_loop b (position (heap b k)) (block_moves b attackers) pmoves1 = Inr pmoves2"
    and m: "m = AList.update (position (heap b k)) (s - dzone) pmoves2"
    by (auto simp: legal_moves_def split: sum.splits option.splits if_splits)
  from apply_pins_keys [OF p1 k0] have k1: "map_of pmoves1 pos \<noteq> None" .
  from check_loop_adds_en_passant [OF p2 ep k1 notking pawn(1,3)]
  obtain s' where "map_of pmoves2 pos = Some s'" "ep \<in> s'" by blast
  with m notking show ?thesis by (simp add: update_conv')
qed

text \<open>
  Claim C2 asks that under double check every friendly piece other than the King gets the
  empty move set. Evaluated on a position where the white King on e1 is attacked by a rook
  on e8 and a knight on f3 right after the black pawn's advance a7 to a5: the move set of
  the white pawn on h2 is first emptied and then receives the en-passant square a6 (lines
  277 and 278), so it is not empty.
\<close>

theorem double_check_pawn_keeps_move:
  "fst double_check_board = None \<and>
   get_attackers spec_pieces (snd double_check_board) White
     = Inr [(2, {(4, 1), (4, 2), (4, 3), (4, 4), (4, 5), (4, 6)}), (3, {(5, 5)})] \<and>
   en_passant (snd double_check_board) = (Some (0, 2), Some 5) \<and>
   map_of (pieces (snd double_check_board)) (7, 6) = Some 4 \<and>
   kind (heap (snd double_check_board) 4) = Pawn \<and>
   team (heap (snd double_check_board) 4) = White \<and>
   kings (snd double_check_board) White = Some 0 \<and>
   position (heap (snd double_check_board) 0) = (4, 7) \<and>
   legal_moves spec_pieces (snd double_check_board) White
     = Inr [((4, 7), {(5, 6), (5, 7), (3, 7)}), ((7, 6), {(0, 2)})]"
  by code_simp

text \<open>
  Claim C4 lets a pawn keep the en-passant square under a single check exactly when the
  en-passant capture is available and removes the attacking pawn. Evaluated on a position
  where the white King on e1 is attacked by a rook on e8 only, right after the black
  pawn's advance a7 to a5: the white pawn on h2 can move to h3 and h4 only, the attacker
  is not a pawn, and its move set in the result is the en-passant square a6.
\<close>

theorem single_check_pawn_gets_en_passant:
  "fst check_board = None \<and>
   get_attackers spec_pieces (snd check_board) White
     = Inr [(2, {(4, 1), (4, 2), (4, 3), (4, 4), (4, 5), (4, 6)})] \<and>
   kind (heap (snd check_board) 2) = Rook \<and>
   position (heap (snd check_board) 2) = (4, 0) \<and>
   en_passant (snd check_board) = (Some (0, 2), Some 4) \<and>
   map_of (pieces (snd check_board)) (7, 6) = Some 3 \<and>
   kind (heap (snd check_board) 3) = Pawn \<and>
   team (heap (snd check_board) 3) = White \<and>
   spec_get_moves (heap (snd check_board)) (pieces (snd check_board))
     (heap (snd check_board) 3) (Some (0, 2)) = {(7, 5), (7, 4)} \<and>
   legal_moves spec_pieces (snd check_board) White
     = Inr [((4, 7), {(5, 6), (3, 6), (5, 7), (3, 7)}), ((7, 6), {(0, 2)})]"
  by code_simp

section \<open>Capture of the occupant of the destination\<close>

text \<open>A Pawn never captures the occupant of its destination: when the destination is held
  by a piece and is not the en-passant square, \<^verbatim>\<open>move\<close> raises, whatever the move set of
  the pawn holds, and the occupant is still on its square, as live as before.\<close>

lemma pawn_capture_always_raises:
  assumes "kind (heap b p) = Pawn"
    and "fst (en_passant b) \<noteq> Some (to_coord dst)"
    and "map_of (pieces b) (to_coord dst) = Some occ"
    and "position (heap b p) \<noteq> to_coord dst"
  shows "fst (move b p dst) \<noteq> None \<and>
         map_of (pieces (snd (move b p dst))) (to_coord dst) = Some occ \<and>
         alive (heap (snd (move b p dst)) occ) = alive (heap b occ)"
  using assms
  by (auto simp: move_def move_capture_def remove_def setitem_def Let_def then_do_def
      delete_conv' set_position_def to_coord_def split: option.splits)

text \<open>The branch of the other pieces does capture: a piece that is not a pawn and moves
  to a square held by a different piece destroys it and takes its square.\<close>

lemma capture_by_other_piece:
  assumes "kind (heap b p) \<noteq> Pawn" and "valid_cpos dst"
    and "map_of (pieces b) (to_coord dst) = Some occ" and "occ \<noteq> p"
    and "position (heap b occ) = to_coord dst"
    and "map_of (pieces b) (position (heap b p)) \<noteq> None"
    and "on_board (position (heap b p))"
    and "position (heap b p) \<noteq> to_coord dst"
  shows "fst (move b p dst) = None \<and>
         \<not> alive (heap (snd (move b p dst)) occ) \<and>
         position (heap (snd (move b p dst)) p) = to_coord dst \<and>
         board (snd (move b p dst)) (to_coord dst) = Some p \<and>
         map_of (pieces (snd (move b p dst))) (to_coord dst) = Some p \<and>
         board (snd (move b p dst)) (position (heap b p)) = None \<and>
         map_of (pieces (snd (move b p dst))) (position (heap b p)) = None"
proof -
  have ob: "on_board (to_coord dst)"
    using assms(2) by (simp add: to_coord_def valid_cpos_on_board)
  have ne: "to_coord dst \<noteq> position (heap b p)" using assms(8) by simp
  show ?thesis
    using assms ob ne
    by (auto simp: move_def move_capture_def destroy_def remove_def setitem_def Let_def
        board_index_on_board delete_conv' update_conv' piece_destroy_def set_position_def
        to_coord_def)
qed

end
